theory Spec2Isabelle
  imports Main
begin

section \<open>Data model\<close>

text \<open>
  Modelled from the spec: the class \<open>ApiCallResult\<close> is imported by the scrobble manager
  but its file is not part of the sources. The spec describes it as a discriminated
  outcome: success, or one of a closed set of error kinds (auth error, other error),
  optionally carrying the identity of the originating scrobbler. The method
  \<open>result.is(type)\<close> compares the kind of the result with the given kind.
\<close>

datatype result_type = RESULT_OK | ERROR_AUTH | ERROR_OTHER

datatype ApiCallResult =
  ApiCallResult (resultType: result_type) (resultScrobblerId: "string option")

definition result_is :: "ApiCallResult \<Rightarrow> result_type \<Rightarrow> bool" where
  "result_is result t = (resultType result = t)"

text \<open>
  Values that travel along the error path. A \<open>catch\<close> receives whatever was thrown or
  whatever a promise was rejected with: an \<open>ApiCallResult\<close>, a \<open>TypeError\<close> raised by
  the runtime (a method call on \<open>null\<close>, a call of a property that is not a function),
  or an \<open>Error\<close> object with its message.
\<close>

datatype thrown = ApiResult ApiCallResult | TypeError | Error string

text \<open>
  The settled state of a promise. An \<open>async\<close> function that throws yields a rejected
  promise, one that returns yields a resolved one.
\<close>

datatype 'a promise = Resolved 'a | Rejected thrown

record SongInfo =
  artist :: string
  track :: string
  album :: string

datatype LoveStatus = Loved | Unloved

type_synonym ScrobblerSongInfo = string

type_synonym Session = string

text \<open>
  A scrobbler object. Its class (\<open>BaseScrobbler\<close> and the three backends) is not part of
  the sources, so the outcome of each backend method is a field of the object: the
  methods are declared to return promises (the manager chains \<open>.catch\<close> on them), hence a
  call on an object settles as \<open>Resolved\<close> or \<open>Rejected\<close>. The field \<open>objRef\<close> is the
  identity of the object: two instances of the same backend class agree on every other
  field and differ in it. Strict equality of JavaScript (\<open>Array.indexOf\<close>) is equality of
  these values. The four methods that the manager also declares carry the prefix
  \<open>scrobbler_\<close>.
\<close>

record BaseScrobbler =
  objRef :: nat
  getId :: string
  getLabel :: string
  canLoadSongInfo :: bool
  canLoveSong :: bool
  getSession :: "Session promise"
  isReadyForGrantAccess :: "bool promise"
  scrobbler_getSongInfo :: "SongInfo \<Rightarrow> ScrobblerSongInfo promise"
  scrobbler_sendNowPlaying :: "SongInfo \<Rightarrow> ApiCallResult promise"
  scrobbler_scrobble :: "SongInfo \<Rightarrow> ApiCallResult promise"
  scrobbler_toggleLove :: "SongInfo \<Rightarrow> LoveStatus \<Rightarrow> ApiCallResult promise"

section \<open>JavaScript array and promise primitives\<close>

text \<open>\<open>Array.indexOf\<close>: the first index holding the element, or \<open>-1\<close>.\<close>

fun indexOf :: "'a list \<Rightarrow> 'a \<Rightarrow> int" where
  "indexOf [] x = - 1"
| "indexOf (y # ys) x =
     (if y = x then 0
      else (let i = indexOf ys x in if i < 0 then - 1 else i + 1))"

text \<open>
  \<open>array.splice(index, 1)\<close>: a negative index counts from the end (clamped at 0), an
  index beyond the end is clamped to the length; one element is removed where there is
  one.
\<close>

definition splice1 :: "'a list \<Rightarrow> int \<Rightarrow> 'a list" where
  "splice1 xs index =
     (let n = int (length xs);
          start = (if index < 0 then max (n + index) 0 else min index n)
      in take (nat start) xs @ drop (Suc (nat start)) xs)"

text \<open>
  \<open>Promise.all\<close>: resolved with the values of all inputs in slot order, or rejected as
  soon as one input is rejected. Which rejection comes first is a matter of timing; the
  model reports the first one in slot order.
\<close>

fun Promise_all :: "'a promise list \<Rightarrow> 'a list promise" where
  "Promise_all [] = Resolved []"
| "Promise_all (Rejected e # ps) = Rejected e"
| "Promise_all (Resolved v # ps) =
     (case Promise_all ps of
        Rejected e \<Rightarrow> Rejected e
      | Resolved vs \<Rightarrow> Resolved (v # vs))"

section \<open>Scrobble manager\<close>

text \<open>
  The module keeps two arrays: \<open>registeredScrobblers\<close>, fixed at load time, and
  \<open>boundScrobblers\<close>, mutated by the manager. The registered array is a parameter
  \<open>registered\<close> of the operations that read it; the bound array is passed in and
  returned. Console output is not modelled.
\<close>

definition isScrobblerInArray :: "BaseScrobbler \<Rightarrow> BaseScrobbler list \<Rightarrow> bool" where
  "isScrobblerInArray scrobbler array =
     list_ex (\<lambda>s. getId s = getId scrobbler) array"

definition bindScrobbler :: "BaseScrobbler \<Rightarrow> BaseScrobbler list \<Rightarrow> BaseScrobbler list" where
  "bindScrobbler scrobbler boundScrobblers =
     (if \<not> isScrobblerInArray scrobbler boundScrobblers
      then boundScrobblers @ [scrobbler]
      else boundScrobblers)"

definition unbindScrobbler :: "BaseScrobbler \<Rightarrow> BaseScrobbler list \<Rightarrow> BaseScrobbler list" where
  "unbindScrobbler scrobbler boundScrobblers =
     (if isScrobblerInArray scrobbler boundScrobblers
      then splice1 boundScrobblers (indexOf boundScrobblers scrobbler)
      else boundScrobblers)"

text \<open>
  \<open>bindAllScrobblers\<close>: the loop awaits \<open>getSession\<close> of each registered scrobbler in
  turn inside a \<open>try\<close>; a rejection is caught and the loop goes on. The function returns
  the bound array itself, so the returned value and the new state coincide.
\<close>

fun bindAllScrobblers_loop :: "BaseScrobbler list \<Rightarrow> BaseScrobbler list \<Rightarrow> BaseScrobbler list" where
  "bindAllScrobblers_loop [] boundScrobblers = boundScrobblers"
| "bindAllScrobblers_loop (scrobbler # rest) boundScrobblers =
     (case getSession scrobbler of
        Resolved session \<Rightarrow> bindAllScrobblers_loop rest (bindScrobbler scrobbler boundScrobblers)
      | Rejected e \<Rightarrow> bindAllScrobblers_loop rest boundScrobblers)"

definition bindAllScrobblers ::
  "BaseScrobbler list \<Rightarrow> BaseScrobbler list \<Rightarrow> BaseScrobbler list promise \<times> BaseScrobbler list" where
  "bindAllScrobblers registered boundScrobblers =
     (let bound' = bindAllScrobblers_loop registered boundScrobblers
      in (Resolved bound', bound'))"

text \<open>
  \<open>processErrorResult\<close>. The parameter \<open>result\<close> is whatever the caller caught, and the
  scrobbler may be \<open>null\<close> (see \<open>getScrobblerById\<close>). Calling \<open>result.is\<close> on a value
  that is not an \<open>ApiCallResult\<close> raises a \<open>TypeError\<close>, as does a method call on
  \<open>null\<close>; awaiting a rejected \<open>isReadyForGrantAccess\<close> rethrows its reason.
\<close>

definition processErrorResult ::
  "BaseScrobbler option \<Rightarrow> thrown \<Rightarrow> BaseScrobbler list \<Rightarrow> ApiCallResult promise \<times> BaseScrobbler list" where
  "processErrorResult scrobbler result boundScrobblers =
     (case result of
        ApiResult r \<Rightarrow>
          (let isOtherError = result_is r ERROR_OTHER;
               isAuthError = result_is r ERROR_AUTH
           in if \<not> (isOtherError \<or> isAuthError)
              then (Rejected (Error ''Invalid result''), boundScrobblers)
              else if isAuthError
              then (case scrobbler of
                      None \<Rightarrow> (Rejected TypeError, boundScrobblers)
                    | Some s \<Rightarrow>
                        (case isReadyForGrantAccess s of
                           Rejected e \<Rightarrow> (Rejected e, boundScrobblers)
                         | Resolved isReady \<Rightarrow>
                             (Resolved r,
                              if \<not> isReady then unbindScrobbler s boundScrobblers
                              else boundScrobblers)))
              else (Resolved r, boundScrobblers))
      | TypeError \<Rightarrow> (Rejected TypeError, boundScrobblers)
      | Error msg \<Rightarrow> (Rejected TypeError, boundScrobblers))"

text \<open>
  The pattern \<open>scrobblers.map(s => call(s).catch(result => processErrorResult(s, result)))\<close>
  of \<open>sendNowPlaying\<close> and \<open>toggleLove\<close>. The map issues every call first; each handler
  runs when its promise is rejected and may unbind its scrobbler. The model runs the
  handlers in slot order and threads the bound array through them.
\<close>

fun catchEach ::
  "(BaseScrobbler \<Rightarrow> ApiCallResult promise) \<Rightarrow> BaseScrobbler list \<Rightarrow> BaseScrobbler list
     \<Rightarrow> ApiCallResult promise list \<times> BaseScrobbler list" where
  "catchEach call [] boundScrobblers = ([], boundScrobblers)"
| "catchEach call (scrobbler # rest) boundScrobblers =
     (let (p, bound1) =
            (case call scrobbler of
               Resolved r \<Rightarrow> (Resolved r, boundScrobblers)
             | Rejected result \<Rightarrow> processErrorResult (Some scrobbler) result boundScrobblers);
          (ps, bound2) = catchEach call rest bound1
      in (p # ps, bound2))"

definition getSongInfo ::
  "BaseScrobbler list \<Rightarrow> SongInfo \<Rightarrow> ScrobblerSongInfo option list promise" where
  "getSongInfo registered songInfo =
     (let scrobblers = filter canLoadSongInfo registered
      in Promise_all
           (map (\<lambda>scrobbler.
                   case scrobbler_getSongInfo scrobbler songInfo of
                     Resolved info \<Rightarrow> Resolved (Some info)
                   | Rejected e \<Rightarrow> Resolved None)
                scrobblers))"

definition sendNowPlaying ::
  "SongInfo \<Rightarrow> BaseScrobbler list \<Rightarrow> ApiCallResult list promise \<times> BaseScrobbler list" where
  "sendNowPlaying songInfo boundScrobblers =
     (let (ps, bound') =
            catchEach (\<lambda>scrobbler. scrobbler_sendNowPlaying scrobbler songInfo)
              boundScrobblers boundScrobblers
      in (Promise_all ps, bound'))"

text \<open>
  \<open>sendScrobbleRequest\<close>: each slot is an \<open>async\<close> arrow function whose body is
  \<open>try { return scrobbler.scrobble(songInfo); } catch (result) { ... }\<close>. The promise is
  returned without \<open>await\<close>, so the slot adopts it as it is and a rejection of it never
  enters the \<open>catch\<close>; only an exception raised by the call expression itself does, which
  for a \<open>null\<close> entry is the \<open>TypeError\<close> of the method call.
\<close>

fun sendScrobbleRequest_slots ::
  "BaseScrobbler option list \<Rightarrow> SongInfo \<Rightarrow> BaseScrobbler list
     \<Rightarrow> ApiCallResult promise list \<times> BaseScrobbler list" where
  "sendScrobbleRequest_slots [] songInfo boundScrobblers = ([], boundScrobblers)"
| "sendScrobbleRequest_slots (scrobbler # rest) songInfo boundScrobblers =
     (let (p, bound1) =
            (case scrobbler of
               Some s \<Rightarrow> (scrobbler_scrobble s songInfo, boundScrobblers)
             | None \<Rightarrow> processErrorResult scrobbler TypeError boundScrobblers);
          (ps, bound2) = sendScrobbleRequest_slots rest songInfo bound1
      in (p # ps, bound2))"

definition sendScrobbleRequest ::
  "BaseScrobbler option list \<Rightarrow> SongInfo \<Rightarrow> BaseScrobbler list
     \<Rightarrow> ApiCallResult list promise \<times> BaseScrobbler list" where
  "sendScrobbleRequest scrobblers songInfo boundScrobblers =
     (let (ps, bound') = sendScrobbleRequest_slots scrobblers songInfo boundScrobblers
      in (Promise_all ps, bound'))"

definition scrobble ::
  "SongInfo \<Rightarrow> BaseScrobbler list \<Rightarrow> ApiCallResult list promise \<times> BaseScrobbler list" where
  "scrobble songInfo boundScrobblers =
     sendScrobbleRequest (map Some boundScrobblers) songInfo boundScrobblers"

fun getScrobblerById :: "BaseScrobbler list \<Rightarrow> string \<Rightarrow> BaseScrobbler option" where
  "getScrobblerById [] scrobblerId = None"
| "getScrobblerById (scrobbler # rest) scrobblerId =
     (if getId scrobbler = scrobblerId then Some scrobbler
      else getScrobblerById rest scrobblerId)"

definition scrobbleWithScrobblers ::
  "BaseScrobbler list \<Rightarrow> SongInfo \<Rightarrow> string list \<Rightarrow> BaseScrobbler list
     \<Rightarrow> ApiCallResult list promise \<times> BaseScrobbler list" where
  "scrobbleWithScrobblers registered songInfo scrobblerIds boundScrobblers =
     (let scrobblers = map (getScrobblerById registered) scrobblerIds
      in sendScrobbleRequest scrobblers songInfo boundScrobblers)"

definition toggleLove ::
  "BaseScrobbler list \<Rightarrow> SongInfo \<Rightarrow> LoveStatus \<Rightarrow> BaseScrobbler list
     \<Rightarrow> ApiCallResult list promise \<times> BaseScrobbler list" where
  "toggleLove registered songInfo loveStatus boundScrobblers =
     (let scrobblers = filter canLoveSong registered;
          (ps, bound') =
            catchEach (\<lambda>scrobbler. scrobbler_toggleLove scrobbler songInfo loveStatus)
              scrobblers boundScrobblers
      in (Promise_all ps, bound'))"

section \<open>Extension: the auth notification counter\<close>

text \<open>
  The notification storage holds an object whose property \<open>authDisplayCount\<close> may be
  absent. The storage wrapper is not part of the sources; \<open>get\<close> and \<open>set\<close> are taken to
  read and replace this object. The expression \<open>data.authDisplayCount || 0\<close> yields 0
  for an absent property and for a stored 0.
\<close>

record AuthNotificationsStorage =
  authDisplayCount :: "int option"

definition authNotificationDisplayCount :: int where
  "authNotificationDisplayCount = 3"

definition orZero :: "int option \<Rightarrow> int" where
  "orZero v = (case v of None \<Rightarrow> 0 | Some n \<Rightarrow> if n = 0 then 0 else n)"

definition isAuthNotificationAllowed :: "AuthNotificationsStorage \<Rightarrow> bool" where
  "isAuthNotificationAllowed data =
     (let count = orZero (authDisplayCount data)
      in count < authNotificationDisplayCount)"

definition updateAuthDisplayCount :: "AuthNotificationsStorage \<Rightarrow> AuthNotificationsStorage" where
  "updateAuthDisplayCount data =
     (let count = orZero (authDisplayCount data)
      in data\<lparr>authDisplayCount := Some (count + 1)\<rparr>)"

text \<open>
  What the user gets to see: the notification, or the options tab that is opened when
  the browser rejects the notification.
\<close>

datatype auth_prompt = AuthNotification | AccountsTab

text \<open>
  \<open>Extension.showAuthNotification\<close>. The flag \<open>notificationShown\<close> says whether the
  imported \<open>showAuthNotification\<close> of the notifications module resolves; when it is
  rejected the \<open>catch\<close> opens the tab instead. The counter is updated on both paths.
\<close>

definition showAuthNotification ::
  "bool \<Rightarrow> AuthNotificationsStorage \<Rightarrow> auth_prompt option \<times> AuthNotificationsStorage" where
  "showAuthNotification notificationShown data =
     (if isAuthNotificationAllowed data
      then (Some (if notificationShown then AuthNotification else AccountsTab),
            updateAuthDisplayCount data)
      else (None, data))"

text \<open>
  The lifetime of the extension as far as the counter goes: a sequence of calls of
  \<open>showAuthNotification\<close> on the persistent storage, one flag per call. The result lists
  what each call displayed.
\<close>

fun showAuthNotification_calls ::
  "bool list \<Rightarrow> AuthNotificationsStorage \<Rightarrow> auth_prompt option list \<times> AuthNotificationsStorage" where
  "showAuthNotification_calls [] data = ([], data)"
| "showAuthNotification_calls (flag # flags) data =
     (let (shown, data1) = showAuthNotification flag data;
          (rest, data2) = showAuthNotification_calls flags data1
      in (shown # rest, data2))"

text \<open>The stored display count as the specification words it: 0 when absent.\<close>

definition storedDisplayCount :: "AuthNotificationsStorage \<Rightarrow> int" where
  "storedDisplayCount data = (case authDisplayCount data of None \<Rightarrow> 0 | Some n \<Rightarrow> n)"

section \<open>Duration parsing\<close>

text \<open>
  Modelled from the spec: \<open>Util.stringToSeconds\<close> lives in the content utilities, which
  are not part of the sources; only its test table is. The spec gives the parsing law:
  the forms h:mm:ss, mm:ss and ss, an optional leading sign, surrounding whitespace
  trimmed, and 0 for an empty or missing input. The model reads the trimmed input as an
  optional minus sign followed by one to three groups of decimal digits separated by
  colons, weighs the groups by powers of 60, and yields 0 for anything else. The
  argument \<open>None\<close> is \<open>null\<close>.
\<close>

definition isWhitespace :: "char \<Rightarrow> bool" where
  "isWhitespace c = (c = CHR '' '' \<or> c = CHR 0x09 \<or> c = CHR 0x0A \<or> c = CHR 0x0D)"

definition trim :: "string \<Rightarrow> string" where
  "trim s = rev (dropWhile isWhitespace (rev (dropWhile isWhitespace s)))"

definition digitValue :: "char \<Rightarrow> nat option" where
  "digitValue c =
     (let n = of_char c :: nat
      in if 48 \<le> n \<and> n \<le> 57 then Some (n - 48) else None)"

fun parseDigits :: "string \<Rightarrow> nat \<Rightarrow> nat option" where
  "parseDigits [] acc = Some acc"
| "parseDigits (c # cs) acc =
     (case digitValue c of
        None \<Rightarrow> None
      | Some d \<Rightarrow> parseDigits cs (acc * 10 + d))"

definition parseGroup :: "string \<Rightarrow> nat option" where
  "parseGroup g = (if g = [] then None else parseDigits g 0)"

fun splitColon :: "string \<Rightarrow> string \<Rightarrow> string list" where
  "splitColon [] cur = [rev cur]"
| "splitColon (c # cs) cur =
     (if c = CHR '':'' then rev cur # splitColon cs [] else splitColon cs (c # cur))"

fun groupsToSeconds :: "string list \<Rightarrow> nat \<Rightarrow> nat option" where
  "groupsToSeconds [] acc = Some acc"
| "groupsToSeconds (g # gs) acc =
     (case parseGroup g of
        None \<Rightarrow> None
      | Some v \<Rightarrow> groupsToSeconds gs (acc * 60 + v))"

definition stringToSeconds :: "string option \<Rightarrow> int" where
  "stringToSeconds str =
     (case str of
        None \<Rightarrow> 0
      | Some s \<Rightarrow>
          (let t = trim s;
               negative = (t \<noteq> [] \<and> hd t = CHR ''-'');
               body = (if negative then tl t else t);
               groups = splitColon body []
           in if length groups \<le> 3
              then (case groupsToSeconds groups 0 of
                      None \<Rightarrow> 0
                    | Some seconds \<Rightarrow> if negative then - int seconds else int seconds)
              else 0))"

text \<open>
  The reading of the specification's forms: a group is a non-empty string of decimal
  digits, and its value is the number it denotes in positional notation.
\<close>

definition isDigit :: "char \<Rightarrow> bool" where
  "isDigit c = (c \<in> set ''0123456789'')"

fun decimalValue :: "string \<Rightarrow> nat" where
  "decimalValue [] = 0"
| "decimalValue (c # cs) = (of_char c - 48) * 10 ^ length cs + decimalValue cs"

text \<open>Whether \<open>getSession\<close> of a scrobbler resolves.\<close>

definition hasSession :: "BaseScrobbler \<Rightarrow> bool" where
  "hasSession s = (case getSession s of Resolved session \<Rightarrow> True | Rejected e \<Rightarrow> False)"

section \<open>Example objects\<close>

definition okResult :: ApiCallResult where
  "okResult = ApiCallResult RESULT_OK None"

definition authError :: ApiCallResult where
  "authError = ApiCallResult ERROR_AUTH None"

definition exampleSong :: SongInfo where
  "exampleSong = \<lparr>artist = ''Artist'', track = ''Track'', album = ''Album''\<rparr>"

text \<open>
  A backend instance with the given identity and ID whose every call succeeds and which
  is not waiting for the user to grant access. The examples below change single fields.
\<close>

definition stubScrobbler :: "nat \<Rightarrow> string \<Rightarrow> BaseScrobbler" where
  "stubScrobbler r i =
     \<lparr>objRef = r, getId = i, getLabel = i,
      canLoadSongInfo = True, canLoveSong = True,
      getSession = Resolved ''session'',
      isReadyForGrantAccess = Resolved False,
      scrobbler_getSongInfo = (\<lambda>songInfo. Resolved ''info''),
      scrobbler_sendNowPlaying = (\<lambda>songInfo. Resolved okResult),
      scrobbler_scrobble = (\<lambda>songInfo. Resolved okResult),
      scrobbler_toggleLove = (\<lambda>songInfo loveStatus. Resolved okResult)\<rparr>"

text \<open>A backend whose now-playing, scrobble and love calls are rejected with the given value.\<close>

definition failingScrobbler :: "nat \<Rightarrow> string \<Rightarrow> thrown \<Rightarrow> BaseScrobbler" where
  "failingScrobbler r i e =
     (stubScrobbler r i)
       \<lparr>scrobbler_sendNowPlaying := (\<lambda>songInfo. Rejected e),
        scrobbler_scrobble := (\<lambda>songInfo. Rejected e),
        scrobbler_toggleLove := (\<lambda>songInfo loveStatus. Rejected e)\<rparr>"

section \<open>Arrays and promises\<close>

lemma indexOf_absent: "x \<notin> set xs \<Longrightarrow> indexOf xs x = - 1"
  by (induction xs) (auto simp: Let_def)

lemma indexOf_present: "x \<in> set xs \<Longrightarrow> 0 \<le> indexOf xs x"
  by (induction xs) (auto simp: Let_def)

lemma splice1_Cons_Suc:
  assumes "0 \<le> i"
  shows "splice1 (y # ys) (i + 1) = y # splice1 ys i"
proof -
  have "nat (min (i + 1) (1 + int (length ys))) = Suc (nat (min i (int (length ys))))"
    using assms by arith
  with assms show ?thesis
    by (simp add: splice1_def Let_def)
qed

lemma splice1_zero: "splice1 (y # ys) 0 = ys"
  by (simp add: splice1_def Let_def)

lemma splice1_indexOf: "x \<in> set xs \<Longrightarrow> splice1 xs (indexOf xs x) = remove1 x xs"
proof (induction xs)
  case Nil
  then show ?case by simp
next
  case (Cons y ys)
  show ?case
  proof (cases "y = x")
    case True
    then show ?thesis by (simp add: splice1_zero)
  next
    case False
    with Cons.prems have mem: "x \<in> set ys" by simp
    then have nonneg: "0 \<le> indexOf ys x" by (rule indexOf_present)
    from False nonneg have "indexOf (y # ys) x = indexOf ys x + 1"
      by (simp add: Let_def)
    with nonneg False Cons.IH [OF mem] show ?thesis
      by (simp add: splice1_Cons_Suc)
  qed
qed

lemma splice1_last: "splice1 xs (- 1) = butlast xs"
proof -
  have "nat (max (int (length xs) + - 1) 0) = length xs - 1"
    by arith
  then have "splice1 xs (- 1) = take (length xs - 1) xs @ drop (Suc (length xs - 1)) xs"
    by (simp add: splice1_def Let_def)
  also have "drop (Suc (length xs - 1)) xs = []"
    by simp
  finally show ?thesis
    by (simp add: butlast_conv_take)
qed

lemma Promise_all_catch_null:
  "Promise_all
     (map (\<lambda>s. case g s of
                 Resolved info \<Rightarrow> Resolved (Some info)
               | Rejected e \<Rightarrow> Resolved None) xs)
   = Resolved (map (\<lambda>s. case g s of Resolved info \<Rightarrow> Some info | Rejected e \<Rightarrow> None) xs)"
  by (induction xs) (simp_all split: promise.splits)

lemma Promise_all_rejected:
  "Rejected e \<in> set ps \<Longrightarrow> \<exists>e'. Promise_all ps = Rejected e'"
proof (induction ps)
  case Nil
  then show ?case by simp
next
  case (Cons p ps)
  show ?case
  proof (cases p)
    case (Rejected x)
    then show ?thesis by simp
  next
    case (Resolved v)
    with Cons.prems have "Rejected e \<in> set ps" by simp
    then obtain e' where "Promise_all ps = Rejected e'" using Cons.IH by blast
    with Resolved show ?thesis by simp
  qed
qed

lemma Promise_all_settled:
  assumes "\<forall>x\<in>set xs. \<exists>v. slot x = Resolved v \<and> P x v"
  shows "\<exists>vs. Promise_all (map slot xs) = Resolved vs \<and> list_all2 P xs vs"
  using assms
proof (induction xs)
  case Nil
  then show ?case by simp
next
  case (Cons x xs)
  from Cons.prems obtain v where v: "slot x = Resolved v" "P x v" by auto
  from Cons.prems have "\<forall>x\<in>set xs. \<exists>v. slot x = Resolved v \<and> P x v" by simp
  then obtain vs where vs: "Promise_all (map slot xs) = Resolved vs" "list_all2 P xs vs"
    using Cons.IH by blast
  from v vs have "Promise_all (map slot (x # xs)) = Resolved (v # vs) \<and> list_all2 P (x # xs) (v # vs)"
    by simp
  then show ?case by blast
qed

section \<open>Binding and unbinding\<close>

lemma isScrobblerInArray_iff:
  "isScrobblerInArray s xs \<longleftrightarrow> (\<exists>t\<in>set xs. getId t = getId s)"
  by (simp add: isScrobblerInArray_def list_ex_iff)

lemma isScrobblerInArray_image:
  "isScrobblerInArray s xs \<longleftrightarrow> getId s \<in> getId ` set xs"
  by (induction xs) (auto simp: isScrobblerInArray_def)

lemma isScrobblerInArray_member: "s \<in> set xs \<Longrightarrow> isScrobblerInArray s xs"
  unfolding isScrobblerInArray_iff by blast

lemma bindScrobbler_absent:
  "\<not> isScrobblerInArray s xs \<Longrightarrow> bindScrobbler s xs = xs @ [s]"
  by (simp add: bindScrobbler_def)

lemma bindScrobbler_present:
  "isScrobblerInArray s xs \<Longrightarrow> bindScrobbler s xs = xs"
  by (simp add: bindScrobbler_def)

lemma isScrobblerInArray_bindScrobbler: "isScrobblerInArray s (bindScrobbler s xs)"
  by (cases "isScrobblerInArray s xs")
     (simp_all add: bindScrobbler_absent bindScrobbler_present isScrobblerInArray_iff)

lemma unbindScrobbler_cases:
  "unbindScrobbler s xs =
     (if s \<in> set xs then remove1 s xs
      else if isScrobblerInArray s xs then butlast xs
      else xs)"
proof (cases "s \<in> set xs")
  case True
  then have "isScrobblerInArray s xs" by (rule isScrobblerInArray_member)
  with True show ?thesis by (simp add: unbindScrobbler_def splice1_indexOf)
next
  case False
  then show ?thesis
    by (simp add: unbindScrobbler_def indexOf_absent splice1_last)
qed

text \<open>
  Binding twice is binding once, and unbinding a scrobbler whose ID is not bound
  changes nothing. Both hold for every scrobbler and every bound array.
\<close>

lemma bindScrobbler_idempotent:
  "bindScrobbler s (bindScrobbler s xs) = bindScrobbler s xs"
  by (simp add: bindScrobbler_present isScrobblerInArray_bindScrobbler)

lemma unbindScrobbler_not_bound:
  "\<not> isScrobblerInArray s xs \<Longrightarrow> unbindScrobbler s xs = xs"
  by (simp add: unbindScrobbler_def)

text \<open>
  The manager only ever pushes a scrobbler whose ID is absent, so the IDs of the bound
  array stay pairwise distinct.
\<close>

lemma bindScrobbler_distinct_ids:
  assumes "distinct (map getId xs)"
  shows "distinct (map getId (bindScrobbler s xs))"
proof (cases "isScrobblerInArray s xs")
  case True
  with assms show ?thesis by (simp add: bindScrobbler_present)
next
  case False
  then have "getId s \<notin> getId ` set xs"
    by (simp add: isScrobblerInArray_image)
  with assms False show ?thesis by (simp add: bindScrobbler_absent)
qed

lemma unbindScrobbler_distinct_ids:
  assumes "distinct (map getId xs)"
  shows "distinct (map getId (unbindScrobbler s xs))"
proof -
  from assms have d: "distinct xs" and inj: "inj_on getId (set xs)"
    by (simp_all add: distinct_map)
  have r: "distinct (map getId (remove1 s xs))"
  proof -
    have "set (remove1 s xs) \<subseteq> set xs" by (rule set_remove1_subset)
    then have "inj_on getId (set (remove1 s xs))" using inj by (rule inj_on_subset[rotated])
    with d show ?thesis by (simp add: distinct_map)
  qed
  have b: "distinct (map getId (butlast xs))"
  proof -
    have "set (butlast xs) \<subseteq> set xs" by (auto dest: in_set_butlastD)
    then have "inj_on getId (set (butlast xs))" using inj by (rule inj_on_subset[rotated])
    with d show ?thesis by (simp add: distinct_map distinct_butlast)
  qed
  from assms r b show ?thesis by (simp add: unbindScrobbler_cases)
qed

text \<open>
  Where the bound entry that carries the ID of \<open>s\<close> is the object \<open>s\<close> itself,
  unbinding removes exactly \<open>s\<close>, and bind, unbind, bind leaves the members a single
  bind leaves.
\<close>

lemma unbindScrobbler_removes:
  assumes ids: "distinct (map getId xs)"
    and same: "\<forall>t\<in>set xs. getId t = getId s \<longrightarrow> t = s"
  shows "unbindScrobbler s xs = remove1 s xs"
    and "\<not> isScrobblerInArray s (unbindScrobbler s xs)"
    and "set (unbindScrobbler s xs) = set xs - {s}"
proof -
  have inarr: "isScrobblerInArray s xs \<longleftrightarrow> s \<in> set xs"
    unfolding isScrobblerInArray_iff using same by blast
  then show eq: "unbindScrobbler s xs = remove1 s xs"
    by (simp add: unbindScrobbler_cases remove1_idem)
  from ids have d: "distinct xs" by (simp add: distinct_map)
  then show st: "set (unbindScrobbler s xs) = set xs - {s}"
    by (simp add: eq)
  show "\<not> isScrobblerInArray s (unbindScrobbler s xs)"
    unfolding isScrobblerInArray_iff st using same by blast
qed

lemma bind_unbind_bind_same_object:
  assumes ids: "distinct (map getId xs)"
    and same: "\<forall>t\<in>set xs. getId t = getId s \<longrightarrow> t = s"
  shows "set (bindScrobbler s (unbindScrobbler s (bindScrobbler s xs))) = set (bindScrobbler s xs)"
proof -
  let ?b = "bindScrobbler s xs"
  have sb: "set ?b = insert s (set xs)"
  proof (cases "isScrobblerInArray s xs")
    case True
    then have "s \<in> set xs"
      unfolding isScrobblerInArray_iff using same by blast
    with True show ?thesis by (simp add: bindScrobbler_present insert_absorb)
  next
    case False
    then show ?thesis by (simp add: bindScrobbler_absent)
  qed
  have ids': "distinct (map getId ?b)" using ids by (rule bindScrobbler_distinct_ids)
  have same': "\<forall>t\<in>set ?b. getId t = getId s \<longrightarrow> t = s"
    unfolding sb using same by simp
  have notin: "\<not> isScrobblerInArray s (unbindScrobbler s ?b)"
    and st: "set (unbindScrobbler s ?b) = set ?b - {s}"
    using unbindScrobbler_removes [OF ids' same'] by simp_all
  from notin have "bindScrobbler s (unbindScrobbler s ?b) = unbindScrobbler s ?b @ [s]"
    by (rule bindScrobbler_absent)
  then have "set (bindScrobbler s (unbindScrobbler s ?b)) = insert s (set ?b - {s})"
    by (simp add: st)
  then show ?thesis by (simp add: sb)
qed

text \<open>
  Claim C4: \<open>bindScrobbler\<close> and \<open>unbindScrobbler\<close> are idempotent membership toggles
  keyed by scrobbler ID, not by object reference; for every scrobbler and every bound
  array, binding, unbinding and binding again yields the membership of a single bind.
  The membership tests are by ID, but \<open>unbindScrobbler\<close> removes at
  \<open>boundScrobblers.indexOf(scrobbler)\<close>, which compares references. For a second
  instance of a backend whose ID is bound, \<open>indexOf\<close> yields \<open>-1\<close> and
  \<open>splice(-1, 1)\<close> removes the last entry of the array. Evaluated on the bound array
  of a last.fm instance and a libre.fm instance and another last.fm instance \<open>s\<close>: after
  bind, unbind, bind of \<open>s\<close> the libre.fm scrobbler is gone and the ID of \<open>s\<close> is
  still bound, whereas a single bind leaves both entries.
\<close>

theorem unbindScrobbler_other_instance:
  "bindScrobbler (stubScrobbler 4 ''lastfm'')
     (unbindScrobbler (stubScrobbler 4 ''lastfm'')
        (bindScrobbler (stubScrobbler 4 ''lastfm'')
           [stubScrobbler 1 ''lastfm'', stubScrobbler 2 ''librefm'']))
     = [stubScrobbler 1 ''lastfm'']
   \<and> bindScrobbler (stubScrobbler 4 ''lastfm'')
        [stubScrobbler 1 ''lastfm'', stubScrobbler 2 ''librefm'']
     = [stubScrobbler 1 ''lastfm'', stubScrobbler 2 ''librefm'']"
  by (simp add: bindScrobbler_def unbindScrobbler_def isScrobblerInArray_def splice1_def
      stubScrobbler_def)

section \<open>The error-result protocol\<close>

lemma processErrorResult_fst_independent:
  "fst (processErrorResult scrobbler result bound1) = fst (processErrorResult scrobbler result bound2)"
  by (simp add: processErrorResult_def Let_def split: thrown.splits option.splits promise.splits)

lemma processErrorResult_classified:
  assumes "result_is r ERROR_AUTH \<or> result_is r ERROR_OTHER"
    and "isReadyForGrantAccess s = Resolved ready"
  shows "fst (processErrorResult (Some s) (ApiResult r) bound) = Resolved r"
  using assms by (auto simp: processErrorResult_def Let_def)

lemma processErrorResult_null_entry:
  "processErrorResult None TypeError bound = (Rejected TypeError, bound)"
  by (simp add: processErrorResult_def)

text \<open>
  Claim C2: for an auth error, a scrobbler that reports \<open>isReadyForGrantAccess()\<close> true
  stays bound, one that reports false is removed from the bound array, and in both
  cases the classified result is returned, not thrown. The bound array has pairwise
  distinct IDs, and the entry bound under the ID of the scrobbler is that scrobbler.
\<close>

theorem processErrorResult_auth_error:
  assumes auth: "result_is r ERROR_AUTH"
    and ready: "isReadyForGrantAccess s = Resolved isReady"
    and ids: "distinct (map getId boundScrobblers)"
    and same: "\<forall>t\<in>set boundScrobblers. getId t = getId s \<longrightarrow> t = s"
  shows "processErrorResult (Some s) (ApiResult r) boundScrobblers =
           (Resolved r, if isReady then boundScrobblers else remove1 s boundScrobblers)
         \<and> (isReady \<or> \<not> isScrobblerInArray s (remove1 s boundScrobblers))"
proof -
  have eq: "unbindScrobbler s boundScrobblers = remove1 s boundScrobblers"
    and notin: "\<not> isScrobblerInArray s (unbindScrobbler s boundScrobblers)"
    using unbindScrobbler_removes [OF ids same] by simp_all
  from auth ready have "processErrorResult (Some s) (ApiResult r) boundScrobblers =
      (Resolved r, if isReady then boundScrobblers else unbindScrobbler s boundScrobblers)"
    by (simp add: processErrorResult_def Let_def)
  with eq notin show ?thesis by simp
qed

theorem processErrorResult_auth_error_witness:
  "processErrorResult (Some (stubScrobbler 2 ''librefm'')) (ApiResult authError)
     [stubScrobbler 1 ''lastfm'', stubScrobbler 2 ''librefm'', stubScrobbler 3 ''listenbrainz'']
   = (Resolved authError, [stubScrobbler 1 ''lastfm'', stubScrobbler 3 ''listenbrainz''])
   \<and> processErrorResult
       (Some ((stubScrobbler 2 ''librefm'')\<lparr>isReadyForGrantAccess := Resolved True\<rparr>))
       (ApiResult authError)
       [stubScrobbler 1 ''lastfm'',
        (stubScrobbler 2 ''librefm'')\<lparr>isReadyForGrantAccess := Resolved True\<rparr>,
        stubScrobbler 3 ''listenbrainz'']
   = (Resolved authError,
      [stubScrobbler 1 ''lastfm'',
       (stubScrobbler 2 ''librefm'')\<lparr>isReadyForGrantAccess := Resolved True\<rparr>,
       stubScrobbler 3 ''listenbrainz''])"
proof -
  let ?s = "stubScrobbler 2 ''librefm''"
  let ?t = "(stubScrobbler 2 ''librefm'')\<lparr>isReadyForGrantAccess := Resolved True\<rparr>"
  let ?bs = "[stubScrobbler 1 ''lastfm'', ?s, stubScrobbler 3 ''listenbrainz'']"
  let ?bt = "[stubScrobbler 1 ''lastfm'', ?t, stubScrobbler 3 ''listenbrainz'']"
  have auth: "result_is authError ERROR_AUTH"
    by (simp add: result_is_def authError_def)
  have ready_s: "isReadyForGrantAccess ?s = Resolved False"
    and ready_t: "isReadyForGrantAccess ?t = Resolved True"
    by (simp_all add: stubScrobbler_def)
  have ids_s: "distinct (map getId ?bs)" and ids_t: "distinct (map getId ?bt)"
    by (simp_all add: stubScrobbler_def)
  have same_s: "\<forall>t\<in>set ?bs. getId t = getId ?s \<longrightarrow> t = ?s"
    and same_t: "\<forall>t\<in>set ?bt. getId t = getId ?t \<longrightarrow> t = ?t"
    by (simp_all add: stubScrobbler_def)
  show ?thesis
    using processErrorResult_auth_error [OF auth ready_s ids_s same_s]
      processErrorResult_auth_error [OF auth ready_t ids_t same_t]
    by (simp add: stubScrobbler_def)
qed

text \<open>
  Claim C3: a result that is neither an auth error nor an other error makes
  \<open>processErrorResult\<close> raise instead of returning, and the bound array is left as it
  was. For an \<open>ApiCallResult\<close> of another kind the error is \<open>Invalid result\<close>; for a
  value without the method \<open>is\<close> it is the \<open>TypeError\<close> of the call.
\<close>

theorem processErrorResult_invalid_result:
  assumes "\<forall>r. result = ApiResult r \<longrightarrow> \<not> result_is r ERROR_AUTH \<and> \<not> result_is r ERROR_OTHER"
  shows "processErrorResult scrobbler result boundScrobblers =
           (Rejected (case result of
                        ApiResult r \<Rightarrow> Error ''Invalid result''
                      | TypeError \<Rightarrow> TypeError
                      | Error msg \<Rightarrow> TypeError),
            boundScrobblers)"
  using assms by (cases result) (simp_all add: processErrorResult_def Let_def)

theorem processErrorResult_invalid_result_witness:
  "processErrorResult (Some (stubScrobbler 1 ''lastfm'')) (ApiResult okResult) [stubScrobbler 1 ''lastfm'']
     = (Rejected (Error ''Invalid result''), [stubScrobbler 1 ''lastfm''])"
proof -
  have h: "\<forall>r. ApiResult okResult = ApiResult r \<longrightarrow> \<not> result_is r ERROR_AUTH \<and> \<not> result_is r ERROR_OTHER"
    by (simp add: okResult_def result_is_def)
  show ?thesis
    using processErrorResult_invalid_result [OF h, of "Some (stubScrobbler 1 ''lastfm'')" "[stubScrobbler 1 ''lastfm'']"]
    by simp
qed

section \<open>Dispatch\<close>

lemma catchEach_fst:
  "fst (catchEach call targets bound) =
     map (\<lambda>s. case call s of
                 Resolved r \<Rightarrow> Resolved r
               | Rejected e \<Rightarrow> fst (processErrorResult (Some s) e [])) targets"
proof (induction targets arbitrary: bound)
  case Nil
  then show ?case by simp
next
  case (Cons s rest)
  show ?case
  proof (cases "call s")
    case (Resolved r)
    then show ?thesis
      using Cons.IH [of bound] by (simp add: split_beta)
  next
    case (Rejected e)
    have "fst (processErrorResult (Some s) e bound) = fst (processErrorResult (Some s) e [])"
      by (rule processErrorResult_fst_independent)
    with Rejected show ?thesis
      using Cons.IH [of "snd (processErrorResult (Some s) e bound)"]
      by (simp add: split_beta)
  qed
qed

lemma sendScrobbleRequest_slots_eq:
  "sendScrobbleRequest_slots scrobblers songInfo bound =
     (map (\<lambda>entry. case entry of
                     Some s \<Rightarrow> scrobbler_scrobble s songInfo
                   | None \<Rightarrow> Rejected TypeError) scrobblers,
      bound)"
  by (induction scrobblers) (simp_all add: processErrorResult_null_entry split: option.splits)

text \<open>
  \<open>sendNowPlaying\<close> settles every slot: when each failing scrobbler rejects with a
  classified error and answers the readiness question, the aggregate resolves with one
  entry per bound scrobbler, the success or the classified failure of that scrobbler.
\<close>

lemma sendNowPlaying_one_result_per_scrobbler:
  assumes classified:
    "\<forall>s\<in>set boundScrobblers. \<forall>e. scrobbler_sendNowPlaying s songInfo = Rejected e \<longrightarrow>
        (\<exists>r. e = ApiResult r \<and> (result_is r ERROR_AUTH \<or> result_is r ERROR_OTHER))
        \<and> (\<exists>ready. isReadyForGrantAccess s = Resolved ready)"
  shows "\<exists>rs. fst (sendNowPlaying songInfo boundScrobblers) = Resolved rs
           \<and> length rs = length boundScrobblers
           \<and> list_all2 (\<lambda>s r. scrobbler_sendNowPlaying s songInfo = Resolved r
                          \<or> scrobbler_sendNowPlaying s songInfo = Rejected (ApiResult r))
               boundScrobblers rs"
proof -
  let ?call = "\<lambda>s. scrobbler_sendNowPlaying s songInfo"
  let ?slot = "\<lambda>s. case ?call s of
                 Resolved r \<Rightarrow> Resolved r
               | Rejected e \<Rightarrow> fst (processErrorResult (Some s) e [])"
  let ?P = "\<lambda>s r. ?call s = Resolved r \<or> ?call s = Rejected (ApiResult r)"
  have run: "fst (sendNowPlaying songInfo boundScrobblers) = Promise_all (map ?slot boundScrobblers)"
    by (simp add: sendNowPlaying_def split_beta catchEach_fst)
  have "\<forall>s\<in>set boundScrobblers. \<exists>v. ?slot s = Resolved v \<and> ?P s v"
  proof
    fix s assume mem: "s \<in> set boundScrobblers"
    show "\<exists>v. ?slot s = Resolved v \<and> ?P s v"
    proof (cases "?call s")
      case (Resolved r)
      then show ?thesis by simp
    next
      case (Rejected e)
      with classified mem obtain r ready where
        e: "e = ApiResult r" and kind: "result_is r ERROR_AUTH \<or> result_is r ERROR_OTHER"
        and ready: "isReadyForGrantAccess s = Resolved ready"
        by blast
      from kind ready have "fst (processErrorResult (Some s) (ApiResult r) []) = Resolved r"
        by (rule processErrorResult_classified)
      with Rejected e show ?thesis by simp
    qed
  qed
  then obtain rs where rs: "Promise_all (map ?slot boundScrobblers) = Resolved rs"
    "list_all2 ?P boundScrobblers rs"
    using Promise_all_settled [of boundScrobblers ?slot ?P] by blast
  from rs(2) have "length rs = length boundScrobblers"
    by (simp add: list_all2_lengthD)
  with run rs show ?thesis by simp
qed

text \<open>
  \<open>scrobble\<close> does not: one bound scrobbler whose call is rejected rejects the
  aggregate, and nobody is unbound.
\<close>

lemma scrobble_rejected_when_any_fails:
  assumes "s \<in> set boundScrobblers" and "scrobbler_scrobble s songInfo = Rejected e"
  shows "\<exists>e'. scrobble songInfo boundScrobblers = (Rejected e', boundScrobblers)"
proof -
  let ?call = "\<lambda>s. scrobbler_scrobble s songInfo"
  have run: "scrobble songInfo boundScrobblers =
      (Promise_all (map ?call boundScrobblers), boundScrobblers)"
    by (simp add: scrobble_def sendScrobbleRequest_def sendScrobbleRequest_slots_eq comp_def)
  from assms(1) have "?call s \<in> ?call ` set boundScrobblers"
    by (rule imageI)
  with assms(2) have "Rejected e \<in> set (map ?call boundScrobblers)"
    by simp
  then obtain e' where "Promise_all (map ?call boundScrobblers) = Rejected e'"
    using Promise_all_rejected by blast
  with run show ?thesis by simp
qed

text \<open>
  Claim C1: every dispatch of \<open>sendNowPlaying\<close> or \<open>scrobble\<close> to N scrobblers of which
  k fail catches each failure on its own and yields an aggregate of exactly N entries, k
  classified failures and N - k successes, and never rejects the aggregate because one
  scrobbler failed. Evaluated on three bound scrobblers of which the second rejects with
  an auth error and is not ready for grant access: \<open>scrobble\<close> rejects the aggregate
  with that error and leaves the second scrobbler bound, since the promise is returned
  from the \<open>try\<close> block without \<open>await\<close>; \<open>sendNowPlaying\<close> on the same array
  resolves with three entries and unbinds the second scrobbler.
\<close>

theorem scrobble_rejects_on_one_failure:
  "scrobble exampleSong
     [stubScrobbler 1 ''lastfm'',
      failingScrobbler 2 ''librefm'' (ApiResult authError),
      stubScrobbler 3 ''listenbrainz'']
   = (Rejected (ApiResult authError),
      [stubScrobbler 1 ''lastfm'',
       failingScrobbler 2 ''librefm'' (ApiResult authError),
       stubScrobbler 3 ''listenbrainz''])
   \<and> sendNowPlaying exampleSong
     [stubScrobbler 1 ''lastfm'',
      failingScrobbler 2 ''librefm'' (ApiResult authError),
      stubScrobbler 3 ''listenbrainz'']
   = (Resolved [okResult, authError, okResult],
      [stubScrobbler 1 ''lastfm'', stubScrobbler 3 ''listenbrainz''])"
  by (simp add: scrobble_def sendScrobbleRequest_def sendNowPlaying_def stubScrobbler_def
      failingScrobbler_def processErrorResult_def result_is_def authError_def
      unbindScrobbler_def isScrobblerInArray_def splice1_def)

text \<open>
  Claim C7: \<open>getSongInfo\<close> goes to exactly the registered scrobblers with
  \<open>canLoadSongInfo()\<close>; a failed call leaves \<open>null\<close> in its slot and the aggregate
  never rejects, so there is one entry per capable registered scrobbler.
\<close>

theorem getSongInfo_null_per_failure:
  "getSongInfo registered songInfo =
     Resolved
       (map (\<lambda>s. case scrobbler_getSongInfo s songInfo of
                   Resolved info \<Rightarrow> Some info
                 | Rejected e \<Rightarrow> None)
            (filter canLoadSongInfo registered))"
  by (simp add: getSongInfo_def Let_def Promise_all_catch_null)

lemma toggleLove_fst:
  "fst (toggleLove registered songInfo loveStatus bound) =
     Promise_all
       (map (\<lambda>s. case scrobbler_toggleLove s songInfo loveStatus of
                   Resolved r \<Rightarrow> Resolved r
                 | Rejected e \<Rightarrow> fst (processErrorResult (Some s) e []))
            (filter canLoveSong registered))"
  by (simp add: toggleLove_def Let_def split_beta catchEach_fst)

text \<open>
  Claim C8: \<open>toggleLove\<close> goes to exactly the registered scrobblers with
  \<open>canLoveSong()\<close>, bound or not: the aggregate has one slot per such scrobbler, and it
  is the same for every content of the bound array.
\<close>

theorem toggleLove_targets:
  "fst (toggleLove registered songInfo loveStatus boundScrobblers) =
     Promise_all
       (map (\<lambda>s. case scrobbler_toggleLove s songInfo loveStatus of
                   Resolved r \<Rightarrow> Resolved r
                 | Rejected e \<Rightarrow> fst (processErrorResult (Some s) e []))
            (filter canLoveSong registered))
   \<and> fst (toggleLove registered songInfo loveStatus boundScrobblers) =
       fst (toggleLove registered songInfo loveStatus otherBound)"
  by (simp add: toggleLove_fst)

lemma getScrobblerById_unknown:
  "scrobblerId \<notin> getId ` set registered \<Longrightarrow> getScrobblerById registered scrobblerId = None"
  by (induction registered) auto

text \<open>
  Claim C9: \<open>getScrobblerById\<close> returns \<open>null\<close> for a string that is the ID of no
  registered scrobbler; \<open>scrobbleWithScrobblers\<close> passes that \<open>null\<close> entry on to
  \<open>sendScrobbleRequest\<close>, which dispatches to every entry, the \<open>null\<close> one included:
  the slots of known IDs are the calls of their scrobblers, the slot of the unknown ID is
  the \<open>TypeError\<close> of the call on \<open>null\<close>, and no unknown-ID error is raised up
  front.
\<close>

theorem scrobbleWithScrobblers_unknown_id:
  assumes unknown: "scrobblerId \<notin> getId ` set registered"
    and listed: "scrobblerId \<in> set scrobblerIds"
  shows "getScrobblerById registered scrobblerId = None
     \<and> None \<in> set (map (getScrobblerById registered) scrobblerIds)
     \<and> scrobbleWithScrobblers registered songInfo scrobblerIds boundScrobblers =
         (Promise_all
            (map (\<lambda>i. case getScrobblerById registered i of
                        Some s \<Rightarrow> scrobbler_scrobble s songInfo
                      | None \<Rightarrow> Rejected TypeError) scrobblerIds),
          boundScrobblers)
     \<and> (\<exists>e. fst (scrobbleWithScrobblers registered songInfo scrobblerIds boundScrobblers) = Rejected e)"
proof -
  let ?slot = "\<lambda>i. case getScrobblerById registered i of
                        Some s \<Rightarrow> scrobbler_scrobble s songInfo
                      | None \<Rightarrow> Rejected TypeError"
  have none: "getScrobblerById registered scrobblerId = None"
    using unknown by (rule getScrobblerById_unknown)
  from listed have "getScrobblerById registered scrobblerId
      \<in> getScrobblerById registered ` set scrobblerIds"
    by (rule imageI)
  with none have entry: "None \<in> set (map (getScrobblerById registered) scrobblerIds)"
    by simp
  have run: "scrobbleWithScrobblers registered songInfo scrobblerIds boundScrobblers =
         (Promise_all (map ?slot scrobblerIds), boundScrobblers)"
    by (simp add: scrobbleWithScrobblers_def sendScrobbleRequest_def Let_def
        sendScrobbleRequest_slots_eq comp_def)
  have slot: "?slot scrobblerId = Rejected TypeError" using none by simp
  from listed have "?slot scrobblerId \<in> ?slot ` set scrobblerIds"
    by (rule imageI)
  then have "Rejected TypeError \<in> set (map ?slot scrobblerIds)"
    unfolding slot by simp
  then have "\<exists>e. Promise_all (map ?slot scrobblerIds) = Rejected e"
    by (rule Promise_all_rejected)
  with none entry run show ?thesis by simp
qed

theorem scrobbleWithScrobblers_unknown_id_witness:
  "getScrobblerById
     [stubScrobbler 1 ''lastfm'', stubScrobbler 2 ''librefm'', stubScrobbler 3 ''listenbrainz'']
     ''unknown'' = None
   \<and> scrobbleWithScrobblers
       [stubScrobbler 1 ''lastfm'', stubScrobbler 2 ''librefm'', stubScrobbler 3 ''listenbrainz'']
       exampleSong [''lastfm'', ''unknown''] [stubScrobbler 1 ''lastfm'']
     = (Rejected TypeError, [stubScrobbler 1 ''lastfm''])"
proof -
  let ?regs = "[stubScrobbler 1 ''lastfm'', stubScrobbler 2 ''librefm'', stubScrobbler 3 ''listenbrainz'']"
  have unknown: "''unknown'' \<notin> getId ` set ?regs"
    by (simp add: stubScrobbler_def)
  have listed: "''unknown'' \<in> set [''lastfm'', ''unknown'']"
    by simp
  show ?thesis
    using scrobbleWithScrobblers_unknown_id [OF unknown listed, of exampleSong "[stubScrobbler 1 ''lastfm'']"]
    by (simp add: stubScrobbler_def)
qed

section \<open>Binding all registered scrobblers\<close>

lemma bindAllScrobblers_loop_keeps:
  "set bound \<subseteq> set (bindAllScrobblers_loop registered bound)"
proof (induction registered arbitrary: bound)
  case Nil
  then show ?case by simp
next
  case (Cons s rest)
  have step: "set bound \<subseteq> set (bindScrobbler s bound)"
    by (cases "isScrobblerInArray s bound")
       (auto simp: bindScrobbler_present bindScrobbler_absent)
  show ?case
  proof (cases "getSession s")
    case (Resolved session)
    with step Cons.IH [of "bindScrobbler s bound"] show ?thesis by simp
  next
    case (Rejected e)
    with Cons.IH [of bound] show ?thesis by simp
  qed
qed

lemma isScrobblerInArray_mono:
  "isScrobblerInArray s xs \<Longrightarrow> set xs \<subseteq> set ys \<Longrightarrow> isScrobblerInArray s ys"
  unfolding isScrobblerInArray_iff by blast

lemma bindAllScrobblers_loop_binds:
  assumes "s \<in> set registered" and "getSession s = Resolved session"
  shows "isScrobblerInArray s (bindAllScrobblers_loop registered bound)"
  using assms
proof (induction registered arbitrary: bound)
  case Nil
  then show ?case by simp
next
  case (Cons t rest)
  show ?case
  proof (cases "t = s")
    case True
    have "isScrobblerInArray s (bindScrobbler s bound)"
      by (rule isScrobblerInArray_bindScrobbler)
    then have "isScrobblerInArray s (bindAllScrobblers_loop rest (bindScrobbler s bound))"
      using bindAllScrobblers_loop_keeps by (rule isScrobblerInArray_mono)
    with True Cons.prems(2) show ?thesis by simp
  next
    case False
    with Cons.prems have mem: "s \<in> set rest" by simp
    show ?thesis
    proof (cases "getSession t")
      case (Resolved x)
      with Cons.IH [OF mem Cons.prems(2), of "bindScrobbler t bound"] show ?thesis by simp
    next
      case (Rejected e)
      with Cons.IH [OF mem Cons.prems(2), of bound] show ?thesis by simp
    qed
  qed
qed

lemma bindAllScrobblers_loop_only:
  assumes "t \<in> set (bindAllScrobblers_loop registered bound)"
  shows "t \<in> set bound \<or> (t \<in> set registered \<and> (\<exists>session. getSession t = Resolved session))"
  using assms
proof (induction registered arbitrary: bound)
  case Nil
  then show ?case by simp
next
  case (Cons s rest)
  show ?case
  proof (cases "getSession s")
    case (Resolved x)
    with Cons.prems have "t \<in> set (bindAllScrobblers_loop rest (bindScrobbler s bound))"
      by simp
    then have "t \<in> set (bindScrobbler s bound)
        \<or> (t \<in> set rest \<and> (\<exists>session. getSession t = Resolved session))"
      by (rule Cons.IH)
    moreover have "set (bindScrobbler s bound) \<subseteq> insert s (set bound)"
      by (cases "isScrobblerInArray s bound")
         (auto simp: bindScrobbler_present bindScrobbler_absent)
    ultimately show ?thesis using Resolved by auto
  next
    case (Rejected e)
    with Cons.prems have "t \<in> set (bindAllScrobblers_loop rest bound)" by simp
    then have "t \<in> set bound \<or> (t \<in> set rest \<and> (\<exists>session. getSession t = Resolved session))"
      by (rule Cons.IH)
    then show ?thesis by auto
  qed
qed

lemma bindAllScrobblers_loop_fresh:
  assumes "distinct (map getId registered)"
    and "\<forall>s\<in>set registered. \<not> isScrobblerInArray s bound"
  shows "bindAllScrobblers_loop registered bound = bound @ filter hasSession registered"
  using assms
proof (induction registered arbitrary: bound)
  case Nil
  then show ?case by simp
next
  case (Cons s rest)
  from Cons.prems have d: "distinct (map getId rest)" and fresh: "getId s \<notin> getId ` set rest"
    and nb: "\<not> isScrobblerInArray s bound"
    and rest_nb: "\<forall>t\<in>set rest. \<not> isScrobblerInArray t bound"
    by simp_all
  show ?case
  proof (cases "getSession s")
    case (Resolved x)
    have b: "bindScrobbler s bound = bound @ [s]" using nb by (rule bindScrobbler_absent)
    have "\<forall>t\<in>set rest. \<not> isScrobblerInArray t (bound @ [s])"
    proof
      fix t assume t: "t \<in> set rest"
      then have "\<not> isScrobblerInArray t bound" using rest_nb by simp
      moreover from t fresh have "getId s \<noteq> getId t" by (metis imageI)
      ultimately show "\<not> isScrobblerInArray t (bound @ [s])"
        by (simp add: isScrobblerInArray_def)
    qed
    with d have "bindAllScrobblers_loop rest (bound @ [s]) = (bound @ [s]) @ filter hasSession rest"
      by (rule Cons.IH)
    moreover from Resolved have "hasSession s" by (simp add: hasSession_def)
    ultimately show ?thesis using Resolved b by simp
  next
    case (Rejected e)
    from d rest_nb have "bindAllScrobblers_loop rest bound = bound @ filter hasSession rest"
      by (rule Cons.IH)
    moreover from Rejected have "\<not> hasSession s" by (simp add: hasSession_def)
    ultimately show ?thesis using Rejected by simp
  qed
qed

text \<open>
  Claim C5: \<open>bindAllScrobblers\<close> attempts \<open>getSession()\<close> on every registered
  scrobbler; a failure of one neither stops nor fails the attempts on the others; each
  scrobbler whose \<open>getSession()\<close> succeeds is bound; the function returns the bound
  array. The function always resolves; every registered scrobbler with a session is
  bound afterwards (by ID), nothing else is added, nothing is removed, and from an empty
  bound array and distinct registered IDs the result is exactly the registered
  scrobblers with a session, in order.
\<close>

theorem bindAllScrobblers_binds_each_success:
  "\<exists>bound'. bindAllScrobblers registered boundScrobblers = (Resolved bound', bound')
     \<and> (\<forall>s\<in>set registered. (\<exists>session. getSession s = Resolved session) \<longrightarrow> isScrobblerInArray s bound')
     \<and> (\<forall>t\<in>set bound'. t \<in> set boundScrobblers
           \<or> (t \<in> set registered \<and> (\<exists>session. getSession t = Resolved session)))
     \<and> (\<forall>t\<in>set boundScrobblers. t \<in> set bound')
     \<and> (boundScrobblers = [] \<and> distinct (map getId registered) \<longrightarrow> bound' = filter hasSession registered)"
proof -
  let ?b = "bindAllScrobblers_loop registered boundScrobblers"
  have 1: "bindAllScrobblers registered boundScrobblers = (Resolved ?b, ?b)"
    by (simp add: bindAllScrobblers_def Let_def)
  have 2: "\<forall>s\<in>set registered. (\<exists>session. getSession s = Resolved session) \<longrightarrow> isScrobblerInArray s ?b"
    using bindAllScrobblers_loop_binds by blast
  have 3: "\<forall>t\<in>set ?b. t \<in> set boundScrobblers
           \<or> (t \<in> set registered \<and> (\<exists>session. getSession t = Resolved session))"
    using bindAllScrobblers_loop_only by blast
  have 4: "\<forall>t\<in>set boundScrobblers. t \<in> set ?b"
    using bindAllScrobblers_loop_keeps by blast
  have 5: "boundScrobblers = [] \<and> distinct (map getId registered) \<longrightarrow> ?b = filter hasSession registered"
    using bindAllScrobblers_loop_fresh [of registered "[]"] by (simp add: isScrobblerInArray_def)
  from 1 2 3 4 5 show ?thesis by blast
qed

theorem bindAllScrobblers_binds_each_success_witness:
  "bindAllScrobblers
     [(stubScrobbler 1 ''lastfm'')\<lparr>getSession := Rejected (ApiResult authError)\<rparr>,
      stubScrobbler 2 ''librefm'',
      (stubScrobbler 3 ''listenbrainz'')\<lparr>getSession := Rejected (Error ''offline'')\<rparr>]
     []
   = (Resolved [stubScrobbler 2 ''librefm''], [stubScrobbler 2 ''librefm''])"
  using bindAllScrobblers_binds_each_success
    [of "[(stubScrobbler 1 ''lastfm'')\<lparr>getSession := Rejected (ApiResult authError)\<rparr>,
          stubScrobbler 2 ''librefm'',
          (stubScrobbler 3 ''listenbrainz'')\<lparr>getSession := Rejected (Error ''offline'')\<rparr>]" "[]"]
  by (simp add: bindAllScrobblers_def Let_def bindScrobbler_def isScrobblerInArray_def
      stubScrobbler_def)

section \<open>The auth notification counter\<close>

lemma orZero_stored: "orZero (authDisplayCount data) = storedDisplayCount data"
  by (simp add: orZero_def storedDisplayCount_def split: option.splits)

lemma isAuthNotificationAllowed_iff:
  "isAuthNotificationAllowed data \<longleftrightarrow> storedDisplayCount data < 3"
  by (simp add: isAuthNotificationAllowed_def Let_def orZero_stored authNotificationDisplayCount_def)

lemma storedDisplayCount_update:
  "storedDisplayCount (updateAuthDisplayCount data) = storedDisplayCount data + 1"
  by (simp add: updateAuthDisplayCount_def Let_def orZero_stored storedDisplayCount_def)

lemma showAuthNotification_calls_count:
  "length (filter (\<lambda>p. p \<noteq> None) (fst (showAuthNotification_calls flags data))) =
     min (length flags) (nat (3 - storedDisplayCount data))"
proof (induction flags arbitrary: data)
  case Nil
  then show ?case by simp
next
  case (Cons flag flags)
  show ?case
  proof (cases "isAuthNotificationAllowed data")
    case True
    then have lt: "storedDisplayCount data < 3" by (simp add: isAuthNotificationAllowed_iff)
    have "nat (3 - storedDisplayCount data) = Suc (nat (3 - (storedDisplayCount data + 1)))"
      using lt by arith
    with True show ?thesis
      using Cons.IH [of "updateAuthDisplayCount data"]
      by (simp add: showAuthNotification_def split_beta storedDisplayCount_update
          del: not_None_eq)
  next
    case False
    then have "nat (3 - storedDisplayCount data) = 0"
      by (simp add: isAuthNotificationAllowed_iff)
    with False show ?thesis
      using Cons.IH [of data]
      by (simp add: showAuthNotification_def split_beta del: not_None_eq)
  qed
qed

lemma showAuthNotification_calls_exhausted:
  "3 \<le> storedDisplayCount data \<Longrightarrow>
     fst (showAuthNotification_calls flags data) = replicate (length flags) None"
proof (induction flags)
  case Nil
  then show ?case by simp
next
  case (Cons flag flags)
  then have "\<not> isAuthNotificationAllowed data" by (simp add: isAuthNotificationAllowed_iff)
  with Cons show ?case by (simp add: showAuthNotification_def split_beta)
qed

text \<open>
  Claim C10: the auth notification is shown at most 3 times:
  \<open>isAuthNotificationAllowed\<close> holds iff the stored count (0 when absent) is below 3,
  every display adds exactly one to the stored count, and once the count has reached 3
  nothing is shown again. Over any sequence of calls that starts with an empty storage
  the number of displays is the smaller of the number of calls and 3.
\<close>

theorem auth_notification_at_most_three:
  "(isAuthNotificationAllowed data \<longleftrightarrow> storedDisplayCount data < 3)
   \<and> (isAuthNotificationAllowed data \<longrightarrow>
        fst (showAuthNotification flag data) \<noteq> None
        \<and> storedDisplayCount (snd (showAuthNotification flag data)) = storedDisplayCount data + 1)
   \<and> (\<not> isAuthNotificationAllowed data \<longrightarrow> showAuthNotification flag data = (None, data))
   \<and> length (filter (\<lambda>p. p \<noteq> None)
         (fst (showAuthNotification_calls flags \<lparr>authDisplayCount = None\<rparr>))) = min (length flags) 3
   \<and> (3 \<le> storedDisplayCount data \<longrightarrow>
        fst (showAuthNotification_calls flags data) = replicate (length flags) None)"
proof -
  have "storedDisplayCount \<lparr>authDisplayCount = None\<rparr> = 0"
    by (simp add: storedDisplayCount_def)
  then have "length (filter (\<lambda>p. p \<noteq> None)
         (fst (showAuthNotification_calls flags \<lparr>authDisplayCount = None\<rparr>))) = min (length flags) 3"
    by (simp add: showAuthNotification_calls_count del: not_None_eq)
  then show ?thesis
    by (simp add: isAuthNotificationAllowed_iff showAuthNotification_def
        storedDisplayCount_update showAuthNotification_calls_exhausted del: not_None_eq)
qed

theorem auth_notification_at_most_three_witness:
  "isAuthNotificationAllowed \<lparr>authDisplayCount = Some 2\<rparr>
   \<and> showAuthNotification True \<lparr>authDisplayCount = Some 2\<rparr>
       = (Some AuthNotification, \<lparr>authDisplayCount = Some 3\<rparr>)
   \<and> showAuthNotification True \<lparr>authDisplayCount = Some 3\<rparr>
       = (None, \<lparr>authDisplayCount = Some 3\<rparr>)
   \<and> fst (showAuthNotification_calls [True, False, True, True, True] \<lparr>authDisplayCount = None\<rparr>)
       = [Some AuthNotification, Some AccountsTab, Some AuthNotification, None, None]"
  using auth_notification_at_most_three [of "\<lparr>authDisplayCount = Some 2\<rparr>" True "[True, False, True, True, True]"]
    auth_notification_at_most_three [of "\<lparr>authDisplayCount = Some 3\<rparr>" True "[True, False, True, True, True]"]
  by (simp add: showAuthNotification_def isAuthNotificationAllowed_def updateAuthDisplayCount_def
      orZero_def authNotificationDisplayCount_def storedDisplayCount_def)

section \<open>Duration parsing\<close>

lemma isDigit_digitValue: "isDigit c \<Longrightarrow> digitValue c = Some (of_char c - 48)"
  by (auto simp: isDigit_def digitValue_def)

lemma isDigit_plain:
  "isDigit c \<Longrightarrow> \<not> isWhitespace c \<and> c \<noteq> CHR '':'' \<and> c \<noteq> CHR ''-''"
  by (auto simp: isDigit_def isWhitespace_def)

lemma parseDigits_digits:
  "list_all isDigit ds \<Longrightarrow> parseDigits ds acc = Some (acc * 10 ^ length ds + decimalValue ds)"
  by (induction ds arbitrary: acc) (simp_all add: isDigit_digitValue algebra_simps)

lemma parseGroup_digits:
  "g \<noteq> [] \<Longrightarrow> list_all isDigit g \<Longrightarrow> parseGroup g = Some (decimalValue g)"
  by (simp add: parseGroup_def parseDigits_digits)

lemma splitColon_digits:
  "list_all isDigit ds \<Longrightarrow> splitColon (ds @ rest) cur = splitColon rest (rev ds @ cur)"
  by (induction ds arbitrary: cur) (simp_all add: isDigit_plain)

lemma splitColon_last_group:
  "list_all isDigit ds \<Longrightarrow> splitColon ds [] = [ds]"
  using splitColon_digits [of ds "[]" "[]"] by simp

lemma splitColon_group:
  "list_all isDigit ds \<Longrightarrow> splitColon (ds @ CHR '':'' # rest) [] = ds # splitColon rest []"
  using splitColon_digits [of ds "CHR '':'' # rest" "[]"] by simp

lemma trim_whitespace:
  assumes "list_all isWhitespace w"
  shows "trim w = []"
proof -
  from assms have blank: "dropWhile isWhitespace w = []"
    by (simp add: list_all_iff)
  show ?thesis unfolding trim_def blank by simp
qed

lemma dropWhile_keep: "xs \<noteq> [] \<Longrightarrow> \<not> P (hd xs) \<Longrightarrow> dropWhile P (xs @ ys) = xs @ ys"
  by (cases xs) simp_all

lemma trim_body:
  assumes w1: "list_all isWhitespace w1" and w2: "list_all isWhitespace w2"
    and body: "body \<noteq> []" "\<not> isWhitespace (hd body)" "\<not> isWhitespace (last body)"
  shows "trim (w1 @ body @ w2) = body"
proof -
  have "dropWhile isWhitespace (w1 @ body @ w2) = dropWhile isWhitespace (body @ w2)"
    using w1 by (intro dropWhile_append2) (simp add: list_all_iff)
  also have "\<dots> = body @ w2"
    using body(1,2) by (rule dropWhile_keep)
  finally have front: "dropWhile isWhitespace (w1 @ body @ w2) = body @ w2" .
  have "dropWhile isWhitespace (rev w2 @ rev body) = dropWhile isWhitespace (rev body)"
    using w2 by (intro dropWhile_append2) (simp add: list_all_iff)
  also have "\<dots> = rev body"
    using body dropWhile_keep [of "rev body" isWhitespace "[]"] by (simp add: hd_rev)
  finally show ?thesis
    by (simp add: trim_def front)
qed

lemma stringToSeconds_trimmed:
  assumes w1: "list_all isWhitespace w1" and w2: "list_all isWhitespace w2"
    and g: "g \<noteq> []" "isDigit (hd g)" "isDigit (last g)"
  shows "stringToSeconds (Some (w1 @ (if negative then ''-'' else []) @ g @ w2)) =
     (if length (splitColon g []) \<le> 3
      then (case groupsToSeconds (splitColon g []) 0 of
              None \<Rightarrow> 0
            | Some seconds \<Rightarrow> if negative then - int seconds else int seconds)
      else 0)"
proof (cases negative)
  case True
  have minus: "\<not> isWhitespace CHR ''-''"
    by (simp add: isWhitespace_def)
  have "trim (w1 @ (CHR ''-'' # g) @ w2) = CHR ''-'' # g"
    using w1 w2 g minus by (intro trim_body) (simp_all add: isDigit_plain)
  with True show ?thesis
    by (simp add: stringToSeconds_def Let_def split: option.splits)
next
  case False
  have "trim (w1 @ g @ w2) = g"
    using w1 w2 g by (intro trim_body) (simp_all add: isDigit_plain)
  moreover have "hd g \<noteq> CHR ''-''" using g(2) by (simp add: isDigit_plain)
  ultimately show ?thesis using False g(1)
    by (simp add: stringToSeconds_def Let_def split: option.splits)
qed

lemma digits_ends:
  "ds \<noteq> [] \<Longrightarrow> list_all isDigit ds \<Longrightarrow> isDigit (hd ds) \<and> isDigit (last ds)"
  by (simp add: list_all_iff)

text \<open>
  Claim C6: \<open>stringToSeconds\<close> parses the forms h:mm:ss, mm:ss and ss with an optional
  leading minus sign after trimming whitespace, and an empty or missing input is 0. For
  all groups of digits \<open>hs\<close>, \<open>ms\<close>, \<open>ss\<close>, any whitespace before and after and
  either sign, the three forms yield the signed sum of the groups weighed by 3600, 60
  and 1; a string of whitespace only (the empty string among them) and \<open>null\<close> yield
  0. The rows of the test table are instances: \<open>01:10:30\<close> with or without trailing
  whitespace is 4230, \<open>-01:10\<close> is -70, \<open>05:20\<close> is 320, \<open>20\<close> is 20, and the
  empty string and \<open>null\<close> are 0.
\<close>

theorem stringToSeconds_parsing_law:
  assumes before: "list_all isWhitespace before" and after: "list_all isWhitespace after"
    and hs: "hs \<noteq> []" "list_all isDigit hs"
    and ms: "ms \<noteq> []" "list_all isDigit ms"
    and ss: "ss \<noteq> []" "list_all isDigit ss"
  shows "stringToSeconds
           (Some (before @ (if negative then ''-'' else []) @ (hs @ '':'' @ ms @ '':'' @ ss) @ after))
         = (if negative then - 1 else 1)
             * int (3600 * decimalValue hs + 60 * decimalValue ms + decimalValue ss)
     \<and> stringToSeconds
           (Some (before @ (if negative then ''-'' else []) @ (ms @ '':'' @ ss) @ after))
         = (if negative then - 1 else 1) * int (60 * decimalValue ms + decimalValue ss)
     \<and> stringToSeconds (Some (before @ (if negative then ''-'' else []) @ ss @ after))
         = (if negative then - 1 else 1) * int (decimalValue ss)
     \<and> stringToSeconds (Some before) = 0
     \<and> stringToSeconds None = 0"
proof -
  from hs ms ss have ends: "isDigit (hd hs)" "isDigit (hd ms)" "isDigit (hd ss)" "isDigit (last ss)"
    by (simp_all add: digits_ends)
  have split3: "splitColon (hs @ CHR '':'' # ms @ CHR '':'' # ss) [] = [hs, ms, ss]"
    using hs(2) ms(2) ss(2) by (simp add: splitColon_group splitColon_last_group)
  have split2: "splitColon (ms @ CHR '':'' # ss) [] = [ms, ss]"
    using ms(2) ss(2) by (simp add: splitColon_group splitColon_last_group)
  have split1: "splitColon ss [] = [ss]"
    using ss(2) by (rule splitColon_last_group)
  have groups: "parseGroup hs = Some (decimalValue hs)" "parseGroup ms = Some (decimalValue ms)"
    "parseGroup ss = Some (decimalValue ss)"
    using hs ms ss by (simp_all add: parseGroup_digits)
  have three: "stringToSeconds
           (Some (before @ (if negative then ''-'' else []) @ (hs @ '':'' @ ms @ '':'' @ ss) @ after))
         = (if negative then - 1 else 1)
             * int (3600 * decimalValue hs + 60 * decimalValue ms + decimalValue ss)"
    using hs(1) ss(1) ends
    by (subst stringToSeconds_trimmed [OF before after]) (simp_all add: split3 groups)
  have two: "stringToSeconds
           (Some (before @ (if negative then ''-'' else []) @ (ms @ '':'' @ ss) @ after))
         = (if negative then - 1 else 1) * int (60 * decimalValue ms + decimalValue ss)"
    using ms(1) ss(1) ends
    by (subst stringToSeconds_trimmed [OF before after]) (simp_all add: split2 groups)
  have one: "stringToSeconds (Some (before @ (if negative then ''-'' else []) @ ss @ after))
         = (if negative then - 1 else 1) * int (decimalValue ss)"
    using ss(1) ends
    by (subst stringToSeconds_trimmed [OF before after]) (simp_all add: split1 groups)
  have blank: "stringToSeconds (Some before) = 0"
    using before by (simp add: stringToSeconds_def trim_whitespace parseGroup_def)
  have missing: "stringToSeconds None = 0"
    by (simp add: stringToSeconds_def)
  from three two one blank missing show ?thesis by simp
qed

theorem stringToSeconds_test_table:
  "stringToSeconds (Some ''01:10:30 '') = 4230
   \<and> stringToSeconds (Some ''01:10:30'') = 4230
   \<and> stringToSeconds (Some ''-01:10'') = - 70
   \<and> stringToSeconds (Some ''05:20'') = 320
   \<and> stringToSeconds (Some ''20'') = 20
   \<and> stringToSeconds (Some '''') = 0
   \<and> stringToSeconds None = 0"
proof -
  have none: "list_all isWhitespace []" and space: "list_all isWhitespace '' ''"
    by (simp_all add: isWhitespace_def)
  have digits: "list_all isDigit ''0''" "list_all isDigit ''01''" "list_all isDigit ''10''"
    "list_all isDigit ''30''" "list_all isDigit ''05''" "list_all isDigit ''20''"
    by (simp_all add: isDigit_def)
  have "''0'' \<noteq> []" "''01'' \<noteq> []" "''10'' \<noteq> []" "''30'' \<noteq> []" "''05'' \<noteq> []"
    "''20'' \<noteq> []"
    by simp_all
  note nonempty = this
  show ?thesis
    using
      stringToSeconds_parsing_law [OF none space nonempty(2) digits(2) nonempty(3) digits(3)
        nonempty(4) digits(4), of False]
      stringToSeconds_parsing_law [OF none none nonempty(2) digits(2) nonempty(3) digits(3)
        nonempty(4) digits(4), of False]
      stringToSeconds_parsing_law [OF none none nonempty(1) digits(1) nonempty(2) digits(2)
        nonempty(3) digits(3), of True]
      stringToSeconds_parsing_law [OF none none nonempty(1) digits(1) nonempty(5) digits(5)
        nonempty(6) digits(6), of False]
    by simp
qed

end
